theory Spec2Isabelle
  imports Complex_Main
begin

section \<open>Strings\<close>

text \<open>
  A Python \<open>str\<close> is a sequence of Unicode code points and \<open>len\<close> counts code points, so
  a string is modelled as a list of code points. \<open>ascii\<close> turns an ASCII literal into that
  representation; texts of the source that are not ASCII are written as code point lists.
\<close>

type_synonym ustring = "nat list"

definition ascii :: "string \<Rightarrow> ustring" where
  "ascii s = map of_char s"

text \<open>
  The characters for which \<open>str.isspace\<close> holds; \<open>str.strip()\<close> without argument and the
  class \<open>\s\<close> of \<open>re\<close> on a \<open>str\<close> pattern both use this set.
\<close>

definition is_space :: "nat \<Rightarrow> bool" where
  "is_space c \<longleftrightarrow>
     (9 \<le> c \<and> c \<le> 13) \<or> (28 \<le> c \<and> c \<le> 32) \<or> c = 133 \<or> c = 160 \<or> c = 5760 \<or>
     (8192 \<le> c \<and> c \<le> 8202) \<or> c = 8232 \<or> c = 8233 \<or> c = 8239 \<or> c = 8287 \<or> c = 12288"

definition strip :: "ustring \<Rightarrow> ustring" where
  "strip s = rev (dropWhile is_space (rev (dropWhile is_space s)))"

text \<open>\<open>sep.join(xs)\<close>.\<close>

fun join :: "ustring \<Rightarrow> ustring list \<Rightarrow> ustring" where
  "join sep [] = []"
| "join sep [x] = x"
| "join sep (x # y # ys) = x @ sep @ join sep (y # ys)"

text \<open>
  \<open>xs[start:stop]\<close> on Python integers: a negative bound counts from the end, and both
  bounds are clamped to the sequence.
\<close>

definition py_slice :: "'a list \<Rightarrow> int \<Rightarrow> int \<Rightarrow> 'a list" where
  "py_slice xs start stop =
     (let n = int (length xs);
          lo = (if start < 0 then max (start + n) 0 else min start n);
          hi = (if stop < 0 then max (stop + n) 0 else min stop n)
      in if lo < hi then take (nat (hi - lo)) (drop (nat lo) xs) else [])"

text \<open>The non-whitespace content of a string, in order.\<close>

definition non_space :: "ustring \<Rightarrow> ustring" where
  "non_space s = filter (\<lambda>c. \<not> is_space c) s"

section \<open>Chunker (src/ingestion/chunker.py)\<close>

datatype py_value = PyInt int | PyStr ustring | PyNone

type_synonym metadata = "(ustring \<times> py_value) list"

text \<open>Assignment to a key of an insertion-ordered \<open>dict\<close>.\<close>

fun dict_set :: "'k \<Rightarrow> 'v \<Rightarrow> ('k \<times> 'v) list \<Rightarrow> ('k \<times> 'v) list" where
  "dict_set k v [] = [(k, v)]"
| "dict_set k v ((k', v') # kvs) =
     (if k' = k then (k, v) # kvs else (k', v') # dict_set k v kvs)"

record chunk =
  c_text :: ustring
  c_index :: int
  c_metadata :: metadata

definition char_count :: "chunk \<Rightarrow> nat" where
  "char_count c = length (c_text c)"

record chunker =
  chunk_size :: int
  overlap :: int
  min_chunk_size :: int

text \<open>\<open>Chunker()\<close> with the defaults of \<open>__init__\<close>.\<close>

definition default_chunker :: chunker where
  "default_chunker = \<lparr>chunk_size = 500, overlap = 100, min_chunk_size = 50\<rparr>"

text \<open>
  \<open>Chunk(text=t, index=index, metadata={**(metadata or {}), "chunk_index": index})\<close>.
\<close>

definition mk_chunk :: "ustring \<Rightarrow> int \<Rightarrow> metadata option \<Rightarrow> chunk" where
  "mk_chunk t i md =
     \<lparr>c_text = t, c_index = i,
      c_metadata = dict_set (ascii ''chunk_index'') (PyInt i) (case md of None \<Rightarrow> [] | Some m \<Rightarrow> m)\<rparr>"

subsection \<open>split_fixed\<close>

text \<open>
  The \<open>while start < len(text)\<close> loop. Nothing in the source bounds the number of rounds,
  so the loop is a partial function: \<open>None\<close> is the loop that never returns.
\<close>

partial_function (option) split_fixed_loop ::
  "chunker \<Rightarrow> ustring \<Rightarrow> metadata option \<Rightarrow> int \<Rightarrow> int \<Rightarrow> chunk list \<Rightarrow> chunk list option" where
  "split_fixed_loop cfg txt md start index chunks =
     (if start < int (length txt) then
        split_fixed_loop cfg txt md
          (if overlap cfg < chunk_size cfg then start + chunk_size cfg - overlap cfg
           else start + chunk_size cfg)
          (if strip (py_slice txt start (start + chunk_size cfg)) \<noteq> [] then index + 1 else index)
          (if strip (py_slice txt start (start + chunk_size cfg)) \<noteq> []
           then chunks @ [mk_chunk (strip (py_slice txt start (start + chunk_size cfg))) index md]
           else chunks)
      else Some chunks)"

definition split_fixed :: "chunker \<Rightarrow> ustring \<Rightarrow> metadata option \<Rightarrow> chunk list option" where
  "split_fixed cfg txt md = split_fixed_loop cfg txt md 0 0 []"

subsection \<open>The accumulate-and-flush loop of the sentence and paragraph strategies\<close>

text \<open>
  \<open>split_by_sentences\<close> and \<open>split_by_paragraphs\<close> run the same loop over their units; the
  only difference is the separator of the join (\<open>' '\<close> and \<open>'\n\n'\<close>). \<open>flush\<close> is the block
  that closes the current chunk: it is appended only when its length reaches
  \<open>min_chunk_size\<close>, and only then is the index advanced.
\<close>

definition flush ::
  "chunker \<Rightarrow> metadata option \<Rightarrow> ustring \<Rightarrow> ustring list \<Rightarrow> chunk list \<times> int \<Rightarrow> chunk list \<times> int" where
  "flush cfg md sep current ci =
     (let chunk_content = join sep current
      in if int (length chunk_content) \<ge> min_chunk_size cfg
         then (fst ci @ [mk_chunk chunk_content (snd ci) md], snd ci + 1)
         else ci)"

fun accumulate ::
  "chunker \<Rightarrow> metadata option \<Rightarrow> ustring \<Rightarrow> ustring list \<Rightarrow>
   chunk list \<times> int \<Rightarrow> ustring list \<Rightarrow> int \<Rightarrow> (chunk list \<times> int) \<times> ustring list" where
  "accumulate cfg md sep [] ci current current_length = (ci, current)"
| "accumulate cfg md sep (u # us) ci current current_length =
     (if current_length + int (length u) > chunk_size cfg \<and> current \<noteq> []
      then accumulate cfg md sep us (flush cfg md sep current ci) [u] (int (length u))
      else accumulate cfg md sep us ci (current @ [u]) (current_length + int (length u)))"

definition assemble :: "chunker \<Rightarrow> metadata option \<Rightarrow> ustring \<Rightarrow> ustring list \<Rightarrow> chunk list" where
  "assemble cfg md sep units =
     (let r = accumulate cfg md sep units ([], 0) [] 0
      in if snd r \<noteq> [] then fst (flush cfg md sep (snd r) (fst r)) else fst (fst r))"

subsection \<open>split_by_paragraphs\<close>

text \<open>\<open>text.split('\n\n')\<close>: the pieces between the non-overlapping occurrences, from the left.\<close>

fun split_blank :: "ustring \<Rightarrow> ustring \<Rightarrow> ustring list" where
  "split_blank cur [] = [cur]"
| "split_blank cur [c] = [cur @ [c] ]"
| "split_blank cur (c # d # rest) =
     (if c = 10 \<and> d = 10 then cur # split_blank [] rest
      else split_blank (cur @ [c]) (d # rest))"

text \<open>\<open>[p.strip() for p in pieces if p.strip()]\<close>.\<close>

definition strip_nonempty :: "ustring list \<Rightarrow> ustring list" where
  "strip_nonempty pieces = map strip (filter (\<lambda>p. strip p \<noteq> []) pieces)"

definition paragraphs :: "ustring \<Rightarrow> ustring list" where
  "paragraphs txt = strip_nonempty (split_blank [] txt)"

definition split_by_paragraphs :: "chunker \<Rightarrow> ustring \<Rightarrow> metadata option \<Rightarrow> chunk list" where
  "split_by_paragraphs cfg txt md = assemble cfg md [10, 10] (paragraphs txt)"

subsection \<open>split_by_sentences\<close>

text \<open>
  The characters of the look-behind class of the sentence pattern: the ideographic full
  stop, the full-width exclamation and question marks, \<open>.\<close>, \<open>!\<close>, \<open>?\<close> and the newline.
\<close>

definition is_terminal :: "nat \<Rightarrow> bool" where
  "is_terminal c \<longleftrightarrow> c = 12290 \<or> c = 65281 \<or> c = 65311 \<or> c = 46 \<or> c = 33 \<or> c = 63 \<or> c = 10"

text \<open>
  \<open>re.split(r'(?<=[...])\s*', text)\<close>. A match starts right after a terminal character and
  takes the whitespace that follows, greedily; it may be empty. \<open>re.split\<close> scans from the
  end of the last match, and an empty match is not accepted where the last match, itself
  empty, ended. In \<open>re_split\<close>, \<open>prev\<close> is the character before the position, \<open>adv\<close> says that
  the last match was empty and ended here, \<open>seg\<close> is the piece read since the last match and
  \<open>rest\<close> the text from the position on.
\<close>

function re_split :: "nat option \<Rightarrow> bool \<Rightarrow> ustring \<Rightarrow> ustring \<Rightarrow> ustring list" where
  "re_split prev adv seg rest =
     (if (case prev of None \<Rightarrow> False | Some p \<Rightarrow> is_terminal p) \<and>
         \<not> (adv \<and> takeWhile is_space rest = [])
      then seg #
           re_split (if takeWhile is_space rest = [] then prev else Some (last (takeWhile is_space rest)))
             (takeWhile is_space rest = []) [] (dropWhile is_space rest)
      else (case rest of
              [] \<Rightarrow> [seg]
            | c # cs \<Rightarrow> re_split (Some c) False (seg @ [c]) cs))"
  by pat_completeness auto
termination
proof (relation "measure (\<lambda>(prev, adv, seg, rest). 2 * length rest + (if adv then 0 else 1))")
  fix prev :: "nat option" and adv :: bool and seg rest :: ustring
  assume "(case prev of None \<Rightarrow> False | Some p \<Rightarrow> is_terminal p) \<and>
          \<not> (adv \<and> takeWhile is_space rest = [])"
  then have a: "adv \<Longrightarrow> takeWhile is_space rest \<noteq> []" by simp
  have le: "length (dropWhile is_space rest) \<le> length rest"
    by (rule length_dropWhile_le)
  have lt: "takeWhile is_space rest \<noteq> [] \<Longrightarrow> length (dropWhile is_space rest) < length rest"
    by (cases rest) (auto simp: le_imp_less_Suc length_dropWhile_le split: if_splits)
  show "((if takeWhile is_space rest = [] then prev else Some (last (takeWhile is_space rest)),
          takeWhile is_space rest = [], [], dropWhile is_space rest),
         prev, adv, seg, rest)
        \<in> measure (\<lambda>(prev, adv, seg, rest). 2 * length rest + (if adv then 0 else 1))"
    using a le lt by (cases "takeWhile is_space rest = []"; cases adv) auto
qed auto

declare re_split.simps [simp del]

definition sentences :: "ustring \<Rightarrow> ustring list" where
  "sentences txt = strip_nonempty (re_split None False [] txt)"

definition split_by_sentences :: "chunker \<Rightarrow> ustring \<Rightarrow> metadata option \<Rightarrow> chunk list" where
  "split_by_sentences cfg txt md = assemble cfg md [32] (sentences txt)"

text \<open>
  What a chunk says about the units it was joined from: they are units of the input, and
  either the chunk is a single unit or the lengths of its units add up to at most
  \<open>chunk_size\<close>.
\<close>

definition unit_bound :: "chunker \<Rightarrow> ustring \<Rightarrow> ustring set \<Rightarrow> chunk \<Rightarrow> bool" where
  "unit_bound cfg sep U c \<longleftrightarrow>
     (\<exists>us. us \<noteq> [] \<and> set us \<subseteq> U \<and> c_text c = join sep us \<and>
           (length us = 1 \<or> (\<Sum>u\<leftarrow>us. int (length u)) \<le> chunk_size cfg))"

section \<open>Exceptions and decoded JSON\<close>

text \<open>
  An exception is its class and \<open>str(e)\<close>. The classes are the ones the handlers of the
  source tell apart (\<open>ZeroDivisionError\<close>, \<open>SyntaxError\<close>) and the ones raised on the paths
  modelled here; every one of them derives from \<open>Exception\<close>.
\<close>

datatype exn_class =
  ZeroDivisionError | SyntaxError | TypeError | ValueError | IndexError | OverflowError |
  JSONDecodeError | ProviderError | DuplicateIDError | OtherException

datatype exn = Exn (exn_class: exn_class) (exn_msg: ustring)

text \<open>The values \<open>json.loads\<close> returns; an object is a \<open>dict\<close> with string keys.\<close>

datatype json =
  JNull | JBool bool | JInt int | JFloat real | JStr ustring | JArr "json list" |
  JObj "(ustring \<times> json) list"

type_synonym kwargs = "(ustring \<times> json) list"

text \<open>\<open>str(n)\<close> for an integer: the decimal digits, with a sign when negative.\<close>

fun str_nat :: "nat \<Rightarrow> ustring" where
  "str_nat n = (if n < 10 then [48 + n] else str_nat (n div 10) @ [48 + n mod 10])"

declare str_nat.simps [simp del]

definition str_int :: "int \<Rightarrow> ustring" where
  "str_int i = (if i < 0 then 45 # str_nat (nat (- i)) else str_nat (nat i))"

section \<open>Tool and ToolRegistry (src/tools/base.py)\<close>

text \<open>
  A tool is anything with a name, a description, a parameter schema and \<open>execute\<close>; what
  \<open>execute(**kwargs)\<close> does is up to the tool, so it is a function that returns a string or
  raises. A failure to bind the keyword arguments to the tool's parameters is raised by
  that call and is one of its exceptions.
\<close>

record tool =
  t_name :: ustring
  t_description :: ustring
  t_parameters :: json
  t_execute :: "kwargs \<Rightarrow> exn + ustring"

text \<open>\<open>self._tools\<close>, a \<open>dict\<close> from names to tools, in insertion order.\<close>

type_synonym registry = "(ustring \<times> tool) list"

definition ToolRegistry_register :: "registry \<Rightarrow> tool \<Rightarrow> registry" where
  "ToolRegistry_register reg t = dict_set (t_name t) t reg"

definition ToolRegistry_get :: "registry \<Rightarrow> ustring \<Rightarrow> tool option" where
  "ToolRegistry_get reg name = map_of reg name"

record tool_decl =
  d_name :: ustring
  d_description :: ustring
  d_parameters :: json

definition to_openai_tool :: "tool \<Rightarrow> tool_decl" where
  "to_openai_tool t = \<lparr>d_name = t_name t, d_description = t_description t, d_parameters = t_parameters t\<rparr>"

definition ToolRegistry_get_openai_tools :: "registry \<Rightarrow> tool_decl list" where
  "ToolRegistry_get_openai_tools reg = map (\<lambda>kv. to_openai_tool (snd kv)) reg"

text \<open>The two messages of \<open>ToolRegistry.execute\<close>, up to the interpolated part.\<close>

definition not_found_prefix :: ustring where
  "not_found_prefix = [38169, 35823, 58, 32, 26410, 25214, 21040, 24037, 20855, 32, 39]"

definition exec_error_prefix :: ustring where
  "exec_error_prefix = [24037, 20855, 25191, 34892, 20986, 38169, 58, 32]"

text \<open>
  \<open>ToolRegistry.execute(tool_name, **kwargs)\<close>: the lookup, then the call inside
  \<open>try\<close>, whose handler \<open>except Exception as e\<close> returns the message with \<open>str(e)\<close>.
  The result is a sum so that a raise would be a value \<open>Inl\<close>.
\<close>

definition ToolRegistry_execute :: "registry \<Rightarrow> ustring \<Rightarrow> kwargs \<Rightarrow> exn + ustring" where
  "ToolRegistry_execute reg tool_name kw =
     (case ToolRegistry_get reg tool_name of
        None \<Rightarrow> Inr (not_found_prefix @ tool_name @ [39])
      | Some t \<Rightarrow>
          (case t_execute t kw of
             Inr result \<Rightarrow> Inr result
           | Inl e \<Rightarrow> Inr (exec_error_prefix @ exn_msg e)))"

section \<open>CalculatorTool (src/tools/calculator.py)\<close>

text \<open>
  \<open>execute\<close> hands the expression to the interpreter's \<open>eval\<close> and formats what comes back
  with operations of the interpreter. These are not code of the repository; they are
  parameters of the model, each one allowed to raise where Python's can:
  \<open>py_eval\<close> is \<open>eval(expression)\<close>, \<open>is_float\<close> is \<open>isinstance(result, float)\<close>,
  \<open>to_int\<close> is \<open>int(result)\<close>, \<open>eq_int\<close> is \<open>result == n\<close>, \<open>format_4f\<close> is
  \<open>f"{result:.4f}"\<close> and \<open>str_value\<close> is \<open>str(result)\<close>.
\<close>

record 'v interpreter =
  py_eval :: "ustring \<Rightarrow> exn + 'v"
  is_float :: "'v \<Rightarrow> bool"
  to_int :: "'v \<Rightarrow> exn + int"
  eq_int :: "'v \<Rightarrow> int \<Rightarrow> bool"
  format_4f :: "'v \<Rightarrow> ustring"
  str_value :: "'v \<Rightarrow> exn + ustring"

definition allowed_chars :: ustring where
  "allowed_chars = ascii ''0123456789+-*/().% ''"

definition all_allowed :: "ustring \<Rightarrow> bool" where
  "all_allowed expression = list_all (\<lambda>c. List.member allowed_chars c) expression"

text \<open>\<open>s.rstrip(c)\<close> for a single character \<open>c\<close>.\<close>

definition rstrip_char :: "nat \<Rightarrow> ustring \<Rightarrow> ustring" where
  "rstrip_char c s = rev (dropWhile (\<lambda>x. x = c) (rev s))"

definition bad_chars_msg :: ustring where
  "bad_chars_msg =
     [38169, 35823, 65306, 34920, 36798, 24335, 21253, 21547, 19981, 20801, 35768, 30340,
      23383, 31526, 12290, 21482, 25903, 25345, 25968, 23383, 21644, 32, 43, 45, 42, 47, 40,
      41, 46, 37]"

definition div_zero_msg :: ustring where
  "div_zero_msg = [38169, 35823, 65306, 38500, 25968, 19981, 33021, 20026, 38646]"

definition syntax_error_prefix :: ustring where
  "syntax_error_prefix =
     [38169, 35823, 65306, 34920, 36798, 24335, 35821, 27861, 38169, 35823, 32, 45, 32]"

definition calc_error_prefix :: ustring where
  "calc_error_prefix = [35745, 31639, 38169, 35823, 65306]"

text \<open>The body of the \<open>try\<close> block.\<close>

definition CalculatorTool_try :: "'v interpreter \<Rightarrow> ustring \<Rightarrow> exn + ustring" where
  "CalculatorTool_try py expression =
     (if \<not> all_allowed expression then Inr bad_chars_msg
      else
        (case py_eval py expression of
           Inl e \<Rightarrow> Inl e
         | Inr result \<Rightarrow>
             if is_float py result then
               (case to_int py result of
                  Inl e \<Rightarrow> Inl e
                | Inr n \<Rightarrow>
                    if eq_int py result n then Inr (str_int n)
                    else Inr (rstrip_char 46 (rstrip_char 48 (format_4f py result))))
             else str_value py result))"

text \<open>
  The three handlers, in the order of the source: \<open>except ZeroDivisionError\<close>,
  \<open>except SyntaxError\<close>, \<open>except Exception as e\<close>.
\<close>

definition CalculatorTool_handler :: "ustring \<Rightarrow> exn \<Rightarrow> exn + ustring" where
  "CalculatorTool_handler expression e =
     (if exn_class e = ZeroDivisionError then Inr div_zero_msg
      else if exn_class e = SyntaxError then Inr (syntax_error_prefix @ expression)
      else Inr (calc_error_prefix @ exn_msg e))"

definition CalculatorTool_execute :: "'v interpreter \<Rightarrow> ustring \<Rightarrow> exn + ustring" where
  "CalculatorTool_execute py expression =
     (case CalculatorTool_try py expression of
        Inr s \<Rightarrow> Inr s
      | Inl e \<Rightarrow> CalculatorTool_handler expression e)"

section \<open>AgentOrchestrator (src/agent/orchestrator.py)\<close>

record tool_call =
  tc_id :: ustring
  tc_name :: ustring
  tc_arguments :: ustring

text \<open>
  The message of a response: \<open>content\<close> may be \<open>None\<close>, and so may \<open>tool_calls\<close>.
\<close>

record assistant_message =
  content :: "ustring option"
  tool_calls :: "tool_call list option"

datatype message =
  System ustring | User ustring | Assistant assistant_message | ToolResult ustring ustring

record request =
  req_model :: ustring
  req_messages :: "message list"
  req_tools :: "tool_decl list option"
  req_tool_choice :: "ustring option"

text \<open>
  The orchestrator. \<open>client\<close> stands for
  \<open>self.client.chat.completions.create(...).choices[0].message\<close>: the reasoning service
  answers a request with a message or the call raises. \<open>verbose\<close> only prints and is left
  out; \<open>system_prompt\<close> is the text \<open>__init__\<close> stores.
\<close>

record orchestrator =
  client :: "request \<Rightarrow> exn + assistant_message"
  model :: ustring
  max_iterations :: int
  registry :: registry
  system_prompt :: ustring

text \<open>
  The conversation of one \<open>run\<close>, and every request sent to the reasoning service so far,
  in order.
\<close>

record run_state =
  messages :: "message list"
  requests :: "request list"

text \<open>
  \<open>self.registry.execute(tool_name, **tool_args)\<close> unpacks the decoded arguments at the
  call: a value that is not a mapping, or a key that is a positional parameter of
  \<open>execute\<close>, raises \<open>TypeError\<close> there, outside every \<open>try\<close>.
\<close>

definition unpack_kwargs :: "json \<Rightarrow> exn + kwargs" where
  "unpack_kwargs j =
     (case j of
        JObj kvs \<Rightarrow>
          if map_of kvs (ascii ''self'') \<noteq> None then
            Inl (Exn TypeError (ascii ''execute() got multiple values for argument self''))
          else if map_of kvs (ascii ''tool_name'') \<noteq> None then
            Inl (Exn TypeError (ascii ''execute() got multiple values for argument tool_name''))
          else Inr kvs
      | _ \<Rightarrow> Inl (Exn TypeError (ascii ''argument after ** must be a mapping'')))"

text \<open>
  The loop over the requested tool calls. \<open>loads\<close> is \<open>json.loads\<close> of the standard
  library, a parameter. Each call decodes the arguments, runs the tool through the
  registry and appends the observation; an exception ends the loop and the run.
\<close>

fun dispatch ::
  "(ustring \<Rightarrow> exn + json) \<Rightarrow> registry \<Rightarrow> tool_call list \<Rightarrow> message list \<Rightarrow> exn + message list" where
  "dispatch loads reg [] msgs = Inr msgs"
| "dispatch loads reg (tc # tcs) msgs =
     (case loads (tc_arguments tc) of
        Inl e \<Rightarrow> Inl e
      | Inr tool_args \<Rightarrow>
          (case unpack_kwargs tool_args of
             Inl e \<Rightarrow> Inl e
           | Inr kw \<Rightarrow>
               (case ToolRegistry_execute reg (tc_name tc) kw of
                  Inl e \<Rightarrow> Inl e
                | Inr result \<Rightarrow> dispatch loads reg tcs (msgs @ [ToolResult (tc_id tc) result]))))"

text \<open>The request of an iteration: \<open>tools if tools else None\<close>, \<open>"auto" if tools else None\<close>.\<close>

definition loop_request :: "orchestrator \<Rightarrow> message list \<Rightarrow> request" where
  "loop_request agent msgs =
     (let tools = ToolRegistry_get_openai_tools (registry agent)
      in \<lparr>req_model = model agent, req_messages = msgs,
          req_tools = (if tools \<noteq> [] then Some tools else None),
          req_tool_choice = (if tools \<noteq> [] then Some (ascii ''auto'') else None)\<rparr>)"

datatype loop_result = Answered "ustring option" | Raised exn | Exhausted

text \<open>
  \<open>for iteration in range(1, self.max_iterations + 1)\<close>, by the number of iterations
  left. An iteration sends one request; a response with tool calls is appended and
  dispatched, any other response ends the run with its content.
\<close>

fun react_loop ::
  "(ustring \<Rightarrow> exn + json) \<Rightarrow> orchestrator \<Rightarrow> nat \<Rightarrow> run_state \<Rightarrow> loop_result \<times> run_state" where
  "react_loop loads agent 0 st = (Exhausted, st)"
| "react_loop loads agent (Suc n) st =
     (let req = loop_request agent (messages st);
          st1 = st\<lparr>requests := requests st @ [req]\<rparr>
      in case client agent req of
           Inl e \<Rightarrow> (Raised e, st1)
         | Inr assistant \<Rightarrow>
             (case tool_calls assistant of
                Some (tc # tcs) \<Rightarrow>
                  (case dispatch loads (registry agent) (tc # tcs) (messages st1 @ [Assistant assistant]) of
                     Inl e \<Rightarrow> (Raised e, st1\<lparr>messages := messages st1 @ [Assistant assistant]\<rparr>)
                   | Inr msgs \<Rightarrow> react_loop loads agent n (st1\<lparr>messages := msgs\<rparr>))
              | _ \<Rightarrow> (Answered (content assistant), st1)))"

definition summarize_directive :: ustring where
  "summarize_directive =
     [35831, 26681, 25454, 30446, 21069, 25910, 38598, 21040, 30340, 20449, 24687, 65292,
      32473, 20986, 20320, 30340, 26368, 32456, 31572, 26696, 12290, 22914, 26524, 20449,
      24687, 19981, 36275, 65292, 35831, 35828, 26126, 12290]"

definition initial_state :: "orchestrator \<Rightarrow> ustring \<Rightarrow> run_state" where
  "initial_state agent user_question =
     \<lparr>messages = [System (system_prompt agent), User user_question], requests = []\<rparr>"

text \<open>The request after the loop: the conversation with the directive, and no tools.\<close>

definition forced_request :: "orchestrator \<Rightarrow> message list \<Rightarrow> request" where
  "forced_request agent msgs =
     \<lparr>req_model = model agent, req_messages = msgs @ [User summarize_directive],
      req_tools = None, req_tool_choice = None\<rparr>"

definition AgentOrchestrator_run ::
  "(ustring \<Rightarrow> exn + json) \<Rightarrow> orchestrator \<Rightarrow> ustring \<Rightarrow> (exn + ustring option) \<times> run_state" where
  "AgentOrchestrator_run loads agent user_question =
     (case react_loop loads agent (nat (max_iterations agent)) (initial_state agent user_question) of
        (Answered final_answer, st) \<Rightarrow> (Inr final_answer, st)
      | (Raised e, st) \<Rightarrow> (Inl e, st)
      | (Exhausted, st) \<Rightarrow>
          (let req = forced_request agent (messages st);
               st1 = \<lparr>messages = req_messages req, requests = requests st @ [req]\<rparr>
           in case client agent req of
                Inl e \<Rightarrow> (Inl e, st1)
              | Inr final_response \<Rightarrow> (Inr (content final_response), st1)))"

section \<open>VectorStore (src/index/vector_store.py)\<close>

record search_result =
  sr_text :: ustring
  sr_metadata :: metadata
  sr_score :: real
  sr_id :: ustring

text \<open>
  What \<open>collection.query\<close> of the vector database returns: per field, one row per query
  text, or \<open>None\<close>. Distances and scores are floating-point numbers in the source and real
  numbers here.
\<close>

record query_result =
  documents :: "ustring list list option"
  metadatas :: "metadata list list option"
  distances :: "real list list option"
  ids :: "ustring list list option"

text \<open>\<open>field[0]\<close>: subscripting \<open>None\<close> and an empty list raise.\<close>

definition first_row :: "'a list list option \<Rightarrow> exn + 'a list" where
  "first_row field =
     (case field of
        None \<Rightarrow> Inl (Exn TypeError (ascii ''NoneType object is not subscriptable''))
      | Some [] \<Rightarrow> Inl (Exn IndexError (ascii ''list index out of range''))
      | Some (row # _) \<Rightarrow> Inr row)"

text \<open>
  The loop over \<open>zip(documents, metadatas, distances, ids)\<close>, which stops at the end of
  the shortest row.
\<close>

fun collect_results ::
  "real \<Rightarrow> ustring list \<Rightarrow> metadata list \<Rightarrow> real list \<Rightarrow> ustring list \<Rightarrow> search_result list" where
  "collect_results min_score (doc # docs) (meta # metas) (distance # dists) (doc_id # doc_ids) =
     (let score = 1 - distance
      in (if score \<ge> min_score
          then [\<lparr>sr_text = doc, sr_metadata = meta, sr_score = score, sr_id = doc_id\<rparr>]
          else []) @ collect_results min_score docs metas dists doc_ids)"
| "collect_results min_score _ _ _ _ = []"

text \<open>
  \<open>VectorStore.search\<close>. \<open>query\<close> is \<open>self.collection.query\<close> of the vector database, a
  parameter; it gets the query text, \<open>n_results = top_k\<close> and the filter, and may raise.
\<close>

definition VectorStore_search ::
  "(ustring \<Rightarrow> int \<Rightarrow> 'w option \<Rightarrow> exn + query_result) \<Rightarrow>
   ustring \<Rightarrow> int \<Rightarrow> 'w option \<Rightarrow> real \<Rightarrow> exn + search_result list" where
  "VectorStore_search query q top_k where_filter min_score =
     (case query q top_k where_filter of
        Inl e \<Rightarrow> Inl e
      | Inr results \<Rightarrow>
          (case documents results of
             Some (doc_row # _) \<Rightarrow>
               if doc_row = [] then Inr []
               else
                 (case first_row (metadatas results) of
                    Inl e \<Rightarrow> Inl e
                  | Inr meta_row \<Rightarrow>
                      (case first_row (distances results) of
                         Inl e \<Rightarrow> Inl e
                       | Inr dist_row \<Rightarrow>
                           (case first_row (ids results) of
                              Inl e \<Rightarrow> Inl e
                            | Inr id_row \<Rightarrow>
                                Inr (collect_results min_score doc_row meta_row dist_row id_row))))
           | _ \<Rightarrow> Inr []))"

text \<open>
  What the vector database promises about its answer to a query for \<open>n_results\<close> hits:
  it answers only a positive \<open>n_results\<close>, and the row of distances has at most
  \<open>n_results\<close> entries, the nearest first.
\<close>

definition query_contract :: "int \<Rightarrow> query_result \<Rightarrow> bool" where
  "query_contract n_results results \<longleftrightarrow>
     0 < n_results \<and>
     (case distances results of
        Some (row # rest) \<Rightarrow> int (length row) \<le> n_results \<and> sorted row
      | _ \<Rightarrow> True)"

subsection \<open>The collection behind add_documents and delete\<close>

text \<open>
  The records of the collection, as far as \<open>add_documents\<close>, \<open>delete\<close> and \<open>count\<close> see
  them. The database validates a call to \<open>add\<close> before it stores anything: the lists
  are not empty and have the same length, the ids are distinct, and no metadata dict is
  empty; otherwise the call raises. What it does with an id that is already stored
  depends on its version: it rejects the call or skips the record. The collection
  carries that policy.
\<close>

record stored =
  s_id :: ustring
  s_document :: ustring
  s_metadata :: metadata

datatype conflict_policy = Reject | Skip

record collection =
  records :: "stored list"
  conflict :: conflict_policy

definition collection_count :: "collection \<Rightarrow> nat" where
  "collection_count c = length (records c)"

definition stored_ids :: "collection \<Rightarrow> ustring list" where
  "stored_ids c = map s_id (records c)"

fun zip3 :: "ustring list \<Rightarrow> ustring list \<Rightarrow> metadata list \<Rightarrow> stored list" where
  "zip3 (i # is) (d # ds) (m # ms) = \<lparr>s_id = i, s_document = d, s_metadata = m\<rparr> # zip3 is ds ms"
| "zip3 _ _ _ = []"

definition collection_add ::
  "collection \<Rightarrow> ustring list \<Rightarrow> metadata list \<Rightarrow> ustring list \<Rightarrow> exn + collection" where
  "collection_add c docs metas new_ids =
     (if new_ids = [] \<or> docs = [] \<or> metas = [] then
        Inl (Exn ValueError (ascii ''Expected a non-empty list''))
      else if length new_ids \<noteq> length docs \<or> length metas \<noteq> length docs then
        Inl (Exn ValueError (ascii ''Unequal lengths''))
      else if \<not> distinct new_ids then
        Inl (Exn DuplicateIDError (ascii ''Expected IDs to be unique''))
      else if list_ex (\<lambda>m. m = []) metas then
        Inl (Exn ValueError (ascii ''Expected metadata to be a non-empty dict''))
      else if conflict c = Reject \<and> list_ex (\<lambda>i. List.member (stored_ids c) i) new_ids then
        Inl (Exn DuplicateIDError (ascii ''ID already exists''))
      else
        Inr (c\<lparr>records := records c @
                 filter (\<lambda>r. \<not> List.member (stored_ids c) (s_id r)) (zip3 new_ids docs metas)\<rparr>))"

definition collection_delete :: "collection \<Rightarrow> ustring list \<Rightarrow> collection" where
  "collection_delete c del_ids = c\<lparr>records := filter (\<lambda>r. \<not> List.member del_ids (s_id r)) (records c)\<rparr>"

text \<open>
  \<open>[f"doc_{existing_count + i}" for i in range(len(texts))]\<close>.
\<close>

definition auto_ids :: "nat \<Rightarrow> nat \<Rightarrow> ustring list" where
  "auto_ids existing_count n = map (\<lambda>i. ascii ''doc_'' @ str_int (int (existing_count + i))) [0..<n]"

definition VectorStore_add_documents ::
  "collection \<Rightarrow> ustring list \<Rightarrow> metadata list option \<Rightarrow> ustring list option \<Rightarrow>
   exn + (ustring list \<times> collection)" where
  "VectorStore_add_documents c texts metadatas_opt ids_opt =
     (let new_ids = (case ids_opt of None \<Rightarrow> auto_ids (collection_count c) (length texts) | Some given \<Rightarrow> given);
          metas = (case metadatas_opt of None \<Rightarrow> map (\<lambda>_. []) texts | Some given \<Rightarrow> given)
      in case collection_add c texts metas new_ids of
           Inl e \<Rightarrow> Inl e
         | Inr c' \<Rightarrow> Inr (new_ids, c'))"

definition VectorStore_delete :: "collection \<Rightarrow> ustring list \<Rightarrow> collection" where
  "VectorStore_delete c del_ids = collection_delete c del_ids"

section \<open>Concrete inputs\<close>

text \<open>A tool whose \<open>execute\<close> raises on every call.\<close>

definition raising_tool :: tool where
  "raising_tool =
     \<lparr>t_name = ascii ''boom'', t_description = ascii ''always fails'', t_parameters = JObj [],
      t_execute = (\<lambda>kw. Inl (Exn ValueError (ascii ''bad input'')))\<rparr>"

text \<open>
  An interpreter that knows three expressions, with the outcome Python's \<open>eval\<close> has on
  each, and integers as values.
\<close>

definition toy_interpreter :: "int interpreter" where
  "toy_interpreter =
     \<lparr>py_eval = (\<lambda>s. if s = ascii ''1/0'' then Inl (Exn ZeroDivisionError (ascii ''division by zero''))
                     else if s = ascii ''1+'' then Inl (Exn SyntaxError (ascii ''invalid syntax''))
                     else if s = ascii ''2**8'' then Inr 256
                     else Inl (Exn OtherException (ascii ''not in the table''))),
      is_float = (\<lambda>v. False),
      to_int = (\<lambda>v. Inr v),
      eq_int = (\<lambda>v n. v = n),
      format_4f = (\<lambda>v. str_int v @ ascii ''.0000''),
      str_value = (\<lambda>v. Inr (str_int v))\<rparr>"

text \<open>
  A decoder that knows two payloads: \<open>{}\<close> is the empty object, and \<open>{\<close>, a payload cut
  off after its first character, is rejected, as \<open>json.loads\<close> does with both.
\<close>

definition toy_loads :: "ustring \<Rightarrow> exn + json" where
  "toy_loads s =
     (if s = ascii ''{}'' then Inr (JObj [])
      else Inl (Exn JSONDecodeError (ascii ''Expecting property name enclosed in double quotes'')))"

text \<open>A reasoning service that asks for one tool call whose arguments are cut off.\<close>

definition truncated_call_agent :: orchestrator where
  "truncated_call_agent =
     \<lparr>client = (\<lambda>req. Inr \<lparr>content = None,
                  tool_calls = Some [\<lparr>tc_id = ascii ''call_1'', tc_name = ascii ''boom'',
                                      tc_arguments = ascii ''{''\<rparr>]\<rparr>),
      model = ascii ''gpt-4o-mini'', max_iterations = 10,
      registry = ToolRegistry_register [] raising_tool, system_prompt = ascii ''sys''\<rparr>"

text \<open>A reasoning service that answers with an empty content and no tool call.\<close>

definition silent_agent :: orchestrator where
  "silent_agent =
     \<lparr>client = (\<lambda>req. Inr \<lparr>content = Some [], tool_calls = None\<rparr>),
      model = ascii ''gpt-4o-mini'', max_iterations = 10,
      registry = ToolRegistry_register [] raising_tool, system_prompt = ascii ''sys''\<rparr>"

text \<open>
  A reasoning service that asks for the raising tool as long as it is offered tools, and
  answers once it is offered none; the budget is two iterations.
\<close>

definition insisting_agent :: orchestrator where
  "insisting_agent =
     \<lparr>client = (\<lambda>req. if req_tools req = None
                  then Inr \<lparr>content = Some (ascii ''summary''), tool_calls = None\<rparr>
                  else Inr \<lparr>content = None,
                            tool_calls = Some [\<lparr>tc_id = ascii ''call_1'', tc_name = ascii ''boom'',
                                                tc_arguments = ascii ''{}''\<rparr>]\<rparr>),
      model = ascii ''gpt-4o-mini'', max_iterations = 2,
      registry = ToolRegistry_register [] raising_tool, system_prompt = ascii ''sys''\<rparr>"

text \<open>
  A vector database that answers every query with three hits in ascending distance.
\<close>

definition toy_query :: "ustring \<Rightarrow> int \<Rightarrow> unit option \<Rightarrow> exn + query_result" where
  "toy_query q n_results where_filter =
     Inr \<lparr>documents = Some [ [ascii ''revenue 2023'', ascii ''revenue 2022'', ascii ''weather''] ],
          metadatas = Some [ [ [], [], [] ] ],
          distances = Some [ [1 / 10, 2 / 5, 7 / 10] ],
          ids = Some [ [ascii ''doc_0'', ascii ''doc_1'', ascii ''doc_2''] ]\<rparr>"

section \<open>Properties of the chunker\<close>

subsection \<open>Whitespace and joins\<close>

lemma non_space_dropWhile: "non_space (dropWhile is_space s) = non_space s"
  by (induction s) (auto simp: non_space_def)

lemma non_space_rev: "non_space (rev s) = rev (non_space s)"
  by (simp add: non_space_def rev_filter)

lemma non_space_strip: "non_space (strip s) = non_space s"
  by (simp add: strip_def non_space_rev non_space_dropWhile)

lemma non_space_append: "non_space (a @ b) = non_space a @ non_space b"
  by (simp add: non_space_def)

lemma length_join:
  "us \<noteq> [] \<Longrightarrow>
   int (length (join sep us)) =
     (\<Sum>u\<leftarrow>us. int (length u)) + int (length sep) * (int (length us) - 1)"
  by (induction sep us rule: join.induct) (auto simp: algebra_simps)

text \<open>The definitions that evaluate the chunker on a concrete text.\<close>

lemmas chunker_eval =
  paragraphs_def sentences_def re_split.simps strip_nonempty_def strip_def is_space_def
  is_terminal_def
  ascii_def split_by_paragraphs_def split_by_sentences_def assemble_def flush_def
  mk_chunk_def default_chunker_def non_space_def Let_def

subsection \<open>Short inputs are dropped\<close>

text \<open>
  C1. The claim: the paragraph and sentence strategies are never lossy, and never drop
  all the content of a non-empty input. On the code: with the default configuration
  (\<open>min_chunk_size = 50\<close>) a text of 18 characters is one paragraph and one sentence, the
  only chunk assembled is shorter than \<open>min_chunk_size\<close>, and both strategies return no
  chunk at all, although the text has non-whitespace content.
\<close>

theorem short_input_all_content_dropped:
  "split_by_paragraphs default_chunker (ascii ''Net sales rose 5%.'') None = [] \<and>
   split_by_sentences default_chunker (ascii ''Net sales rose 5%.'') None = [] \<and>
   non_space (ascii ''Net sales rose 5%.'') = ascii ''Netsalesrose5%.''"
  by (simp add: chunker_eval)

subsection \<open>The size of a chunk\<close>

lemma flush_bound:
  assumes "\<forall>c\<in>set (fst ci). unit_bound cfg sep U c" "current \<noteq> []" "set current \<subseteq> U"
    "length current \<le> 1 \<or> (\<Sum>u\<leftarrow>current. int (length u)) \<le> chunk_size cfg"
  shows "\<forall>c\<in>set (fst (flush cfg md sep current ci)). unit_bound cfg sep U c"
proof -
  have "length current = 1 \<or> (\<Sum>u\<leftarrow>current. int (length u)) \<le> chunk_size cfg"
    using assms(2,4) by (cases current) auto
  then have "unit_bound cfg sep U (mk_chunk (join sep current) (snd ci) md)"
    unfolding unit_bound_def using assms(2,3) by (auto simp: mk_chunk_def)
  then show ?thesis using assms(1) by (auto simp: flush_def Let_def)
qed

lemma accumulate_bound:
  assumes "\<forall>c\<in>set (fst ci). unit_bound cfg sep U c" "set current \<subseteq> U" "set us \<subseteq> U"
    "current_length = (\<Sum>u\<leftarrow>current. int (length u))"
    "length current \<le> 1 \<or> current_length \<le> chunk_size cfg"
  shows "(\<forall>c\<in>set (fst (fst (accumulate cfg md sep us ci current current_length))).
            unit_bound cfg sep U c) \<and>
         set (snd (accumulate cfg md sep us ci current current_length)) \<subseteq> U \<and>
         (length (snd (accumulate cfg md sep us ci current current_length)) \<le> 1 \<or>
          (\<Sum>u\<leftarrow>snd (accumulate cfg md sep us ci current current_length). int (length u))
            \<le> chunk_size cfg)"
  using assms
proof (induction us arbitrary: ci current current_length)
  case Nil
  then show ?case by auto
next
  case (Cons u us)
  show ?case
  proof (cases "current_length + int (length u) > chunk_size cfg \<and> current \<noteq> []")
    case True
    have f: "\<forall>c\<in>set (fst (flush cfg md sep current ci)). unit_bound cfg sep U c"
      using Cons.prems True by (intro flush_bound) auto
    have "set [u] \<subseteq> U" "set us \<subseteq> U" using Cons.prems by auto
    from Cons.IH[OF f this, of "int (length u)"] True show ?thesis by simp
  next
    case False
    have s: "set (current @ [u]) \<subseteq> U" "set us \<subseteq> U" using Cons.prems by auto
    have l: "current_length + int (length u) = (\<Sum>u\<leftarrow>current @ [u]. int (length u))"
      using Cons.prems by simp
    have b: "length (current @ [u]) \<le> 1 \<or> current_length + int (length u) \<le> chunk_size cfg"
      using False by (cases current) auto
    from Cons.IH[OF Cons.prems(1) s l b] False show ?thesis by auto
  qed
qed

lemma assemble_bound:
  assumes "c \<in> set (assemble cfg md sep units)"
  shows "unit_bound cfg sep (set units) c"
proof -
  let ?r = "accumulate cfg md sep units ([], 0) [] 0"
  have a: "(\<forall>c\<in>set (fst (fst ?r)). unit_bound cfg sep (set units) c) \<and>
        set (snd ?r) \<subseteq> set units \<and>
        (length (snd ?r) \<le> 1 \<or> (\<Sum>u\<leftarrow>snd ?r. int (length u)) \<le> chunk_size cfg)"
    by (rule accumulate_bound) auto
  show ?thesis
  proof (cases "snd ?r \<noteq> []")
    case True
    have "\<forall>c\<in>set (fst (flush cfg md sep (snd ?r) (fst ?r))). unit_bound cfg sep (set units) c"
      using a True by (intro flush_bound) auto
    then show ?thesis using assms True by (simp add: assemble_def Let_def)
  next
    case False
    then show ?thesis using assms a by (simp add: assemble_def Let_def)
  qed
qed

text \<open>
  C2, the claim as stated: every chunk of the two strategies, unless it is a single
  oversized unit, has \<open>char_count \<le> chunk_size\<close>. It fails: with \<open>chunk_size = 10\<close> the
  paragraphs \<open>alpha\<close> and \<open>bravo\<close> (5 + 5 characters) are put in one chunk, whose text with
  the separator has 12 characters; with \<open>chunk_size = 12\<close> the sentences \<open>Go on.\<close> and
  \<open>Do it.\<close> (6 + 6) make a chunk of 13 characters.
\<close>

theorem joined_chunk_exceeds_chunk_size:
  "map c_text (split_by_paragraphs \<lparr>chunk_size = 10, overlap = 0, min_chunk_size = 5\<rparr>
      (ascii ''alpha\<newline>\<newline>bravo\<newline>\<newline>charlie'') None)
     = [ascii ''alpha\<newline>\<newline>bravo'', ascii ''charlie''] \<and>
   paragraphs (ascii ''alpha\<newline>\<newline>bravo\<newline>\<newline>charlie'')
     = [ascii ''alpha'', ascii ''bravo'', ascii ''charlie''] \<and>
   length (ascii ''alpha\<newline>\<newline>bravo'') = 12 \<and>
   map c_text (split_by_sentences \<lparr>chunk_size = 12, overlap = 0, min_chunk_size = 5\<rparr>
      (ascii ''Go on. Do it. Finished.'') None)
     = [ascii ''Go on. Do it.'', ascii ''Finished.''] \<and>
   sentences (ascii ''Go on. Do it. Finished.'')
     = [ascii ''Go on.'', ascii ''Do it.'', ascii ''Finished.''] \<and>
   length (ascii ''Go on. Do it.'') = 13"
  by (simp add: chunker_eval)

text \<open>
  C2, amended: the loop counts the lengths of the units and not the separators of the
  join. Every chunk is the join of one or more units of the input; its \<open>char_count\<close> is the
  total length of these units plus one separator between neighbours (two characters
  between paragraphs, one between sentences); and unless the chunk is a single unit, the
  total length of its units is at most \<open>chunk_size\<close>.
\<close>

theorem chunk_units_within_chunk_size:
  "(\<forall>c\<in>set (split_by_paragraphs cfg txt md).
      \<exists>us. us \<noteq> [] \<and> set us \<subseteq> set (paragraphs txt) \<and> c_text c = join [10, 10] us \<and>
           int (char_count c) = (\<Sum>u\<leftarrow>us. int (length u)) + 2 * (int (length us) - 1) \<and>
           (length us = 1 \<or> (\<Sum>u\<leftarrow>us. int (length u)) \<le> chunk_size cfg)) \<and>
   (\<forall>c\<in>set (split_by_sentences cfg txt md).
      \<exists>us. us \<noteq> [] \<and> set us \<subseteq> set (sentences txt) \<and> c_text c = join [32] us \<and>
           int (char_count c) = (\<Sum>u\<leftarrow>us. int (length u)) + (int (length us) - 1) \<and>
           (length us = 1 \<or> (\<Sum>u\<leftarrow>us. int (length u)) \<le> chunk_size cfg))"
proof (intro conjI ballI)
  fix c assume "c \<in> set (split_by_paragraphs cfg txt md)"
  then have "unit_bound cfg [10, 10] (set (paragraphs txt)) c"
    unfolding split_by_paragraphs_def by (rule assemble_bound)
  then obtain us where u: "us \<noteq> []" "set us \<subseteq> set (paragraphs txt)"
    "c_text c = join [10, 10] us"
    "length us = 1 \<or> (\<Sum>u\<leftarrow>us. int (length u)) \<le> chunk_size cfg"
    unfolding unit_bound_def by blast
  have "int (char_count c) = (\<Sum>u\<leftarrow>us. int (length u)) + 2 * (int (length us) - 1)"
    using length_join[OF u(1), of "[10, 10]"] u(3) by (simp add: char_count_def)
  with u show "\<exists>us. us \<noteq> [] \<and> set us \<subseteq> set (paragraphs txt) \<and> c_text c = join [10, 10] us \<and>
           int (char_count c) = (\<Sum>u\<leftarrow>us. int (length u)) + 2 * (int (length us) - 1) \<and>
           (length us = 1 \<or> (\<Sum>u\<leftarrow>us. int (length u)) \<le> chunk_size cfg)" by blast
next
  fix c assume "c \<in> set (split_by_sentences cfg txt md)"
  then have "unit_bound cfg [32] (set (sentences txt)) c"
    unfolding split_by_sentences_def by (rule assemble_bound)
  then obtain us where u: "us \<noteq> []" "set us \<subseteq> set (sentences txt)"
    "c_text c = join [32] us"
    "length us = 1 \<or> (\<Sum>u\<leftarrow>us. int (length u)) \<le> chunk_size cfg"
    unfolding unit_bound_def by blast
  have "int (char_count c) = (\<Sum>u\<leftarrow>us. int (length u)) + (int (length us) - 1)"
    using length_join[OF u(1), of "[32]"] u(3) by (simp add: char_count_def)
  with u show "\<exists>us. us \<noteq> [] \<and> set us \<subseteq> set (sentences txt) \<and> c_text c = join [32] us \<and>
           int (char_count c) = (\<Sum>u\<leftarrow>us. int (length u)) + (int (length us) - 1) \<and>
           (length us = 1 \<or> (\<Sum>u\<leftarrow>us. int (length u)) \<le> chunk_size cfg)" by blast
qed

text \<open>
  C2, witness: the chunk of \<open>alpha\<close> and \<open>bravo\<close> and the chunk of \<open>Go on.\<close> and
  \<open>Do it.\<close> are joins of two units whose lengths add up to \<open>chunk_size\<close>.
\<close>

theorem chunk_units_within_chunk_size_witness:
  "mk_chunk (ascii ''alpha\<newline>\<newline>bravo'') 0 None
     \<in> set (split_by_paragraphs \<lparr>chunk_size = 10, overlap = 0, min_chunk_size = 5\<rparr>
              (ascii ''alpha\<newline>\<newline>bravo\<newline>\<newline>charlie'') None) \<and>
   (\<exists>us. us \<noteq> [] \<and>
      set us \<subseteq> set (paragraphs (ascii ''alpha\<newline>\<newline>bravo\<newline>\<newline>charlie'')) \<and>
      c_text (mk_chunk (ascii ''alpha\<newline>\<newline>bravo'') 0 None) = join [10, 10] us \<and>
      int (char_count (mk_chunk (ascii ''alpha\<newline>\<newline>bravo'') 0 None)) =
        (\<Sum>u\<leftarrow>us. int (length u)) + 2 * (int (length us) - 1) \<and>
      (length us = 1 \<or> (\<Sum>u\<leftarrow>us. int (length u)) \<le> 10)) \<and>
   mk_chunk (ascii ''Go on. Do it.'') 0 None
     \<in> set (split_by_sentences \<lparr>chunk_size = 12, overlap = 0, min_chunk_size = 5\<rparr>
              (ascii ''Go on. Do it. Finished.'') None) \<and>
   (\<exists>us. us \<noteq> [] \<and>
      set us \<subseteq> set (sentences (ascii ''Go on. Do it. Finished.'')) \<and>
      c_text (mk_chunk (ascii ''Go on. Do it.'') 0 None) = join [32] us \<and>
      int (char_count (mk_chunk (ascii ''Go on. Do it.'') 0 None)) =
        (\<Sum>u\<leftarrow>us. int (length u)) + (int (length us) - 1) \<and>
      (length us = 1 \<or> (\<Sum>u\<leftarrow>us. int (length u)) \<le> 12))"
proof -
  let ?pc = "\<lparr>chunk_size = 10, overlap = 0, min_chunk_size = 5\<rparr>"
  let ?sc = "\<lparr>chunk_size = 12, overlap = 0, min_chunk_size = 5\<rparr>"
  have p: "mk_chunk (ascii ''alpha\<newline>\<newline>bravo'') 0 None
     \<in> set (split_by_paragraphs ?pc (ascii ''alpha\<newline>\<newline>bravo\<newline>\<newline>charlie'') None)"
    by (simp add: chunker_eval)
  have s: "mk_chunk (ascii ''Go on. Do it.'') 0 None
     \<in> set (split_by_sentences ?sc (ascii ''Go on. Do it. Finished.'') None)"
    by (simp add: chunker_eval)
  have cp: "chunk_size ?pc = 10" and cs: "chunk_size ?sc = 12" by simp_all
  from chunk_units_within_chunk_size
         [of ?pc "ascii ''alpha\<newline>\<newline>bravo\<newline>\<newline>charlie''" None]
       chunk_units_within_chunk_size [of ?sc "ascii ''Go on. Do it. Finished.''" None] p s
  show ?thesis unfolding cp cs by blast
qed

subsection \<open>split_fixed returns\<close>

lemma py_slice_window:
  assumes "0 \<le> start" "start < int (length xs)" "0 < n"
  shows "py_slice xs start (start + n) = take (nat n) (drop (nat start) xs)"
proof -
  have "take (nat (min (start + n) (int (length xs)) - start)) (drop (nat start) xs)
        = take (nat n) (drop (nat start) xs)"
  proof (cases "start + n \<le> int (length xs)")
    case True
    then show ?thesis by (simp add: min_def)
  next
    case False
    then have "length (drop (nat start) xs) \<le> nat (int (length xs) - start)"
      "length (drop (nat start) xs) \<le> nat n" using assms by auto
    then show ?thesis using False by (simp add: min_def)
  qed
  then show ?thesis using assms by (simp add: py_slice_def Let_def min_def)
qed

lemma split_fixed_loop_returns:
  assumes "0 < chunk_size cfg \<or> overlap cfg < chunk_size cfg"
  shows "\<exists>r. split_fixed_loop cfg txt md start index chunks = Some r"
proof (induction "nat (int (length txt) - start)" arbitrary: start index chunks rule: less_induct)
  case less
  show ?case
  proof (cases "start < int (length txt)")
    case True
    define start' where "start' = (if overlap cfg < chunk_size cfg then start + chunk_size cfg - overlap cfg
           else start + chunk_size cfg)"
    have "start < start'" using assms by (auto simp: start'_def)
    then have "nat (int (length txt) - start') < nat (int (length txt) - start)"
      using True by auto
    from less[OF this] show ?thesis
      by (subst split_fixed_loop.simps) (simp add: True start'_def)
  next
    case False
    then show ?thesis by (subst split_fixed_loop.simps) simp
  qed
qed

lemma split_fixed_loop_covers:
  assumes "0 < chunk_size cfg" "chunk_size cfg \<le> overlap cfg" "0 \<le> start"
    "split_fixed_loop cfg txt md start index chunks = Some r"
  shows "non_space (concat (map c_text r)) =
         non_space (concat (map c_text chunks)) @ non_space (drop (nat start) txt)"
  using assms(3,4)
proof (induction "nat (int (length txt) - start)" arbitrary: start index chunks rule: less_induct)
  case less
  show ?case
  proof (cases "start < int (length txt)")
    case True
    let ?w = "py_slice txt start (start + chunk_size cfg)"
    let ?i = "if strip ?w \<noteq> [] then index + 1 else index"
    let ?c = "if strip ?w \<noteq> [] then chunks @ [mk_chunk (strip ?w) index md] else chunks"
    have w: "?w = take (nat (chunk_size cfg)) (drop (nat start) txt)"
      using less.prems True assms(1) by (intro py_slice_window) auto
    have step: "split_fixed_loop cfg txt md (start + chunk_size cfg) ?i ?c = Some r"
      using less.prems(2) True assms(2) by (subst (asm) split_fixed_loop.simps) simp
    have m: "nat (int (length txt) - (start + chunk_size cfg)) < nat (int (length txt) - start)"
      using True assms(1) by auto
    have p: "0 \<le> start + chunk_size cfg" using less.prems assms(1) by simp
    have ih: "non_space (concat (map c_text r)) =
          non_space (concat (map c_text ?c)) @ non_space (drop (nat (start + chunk_size cfg)) txt)"
      by (rule less.hyps[OF m p step])
    have c: "non_space (concat (map c_text ?c)) = non_space (concat (map c_text chunks)) @ non_space ?w"
    proof (cases "strip ?w = []")
      case True
      then have "non_space ?w = []" using non_space_strip[of ?w] by (simp add: non_space_def)
      with True show ?thesis by simp
    next
      case False
      then show ?thesis by (simp add: non_space_append mk_chunk_def non_space_strip)
    qed
    have "drop (nat (start + chunk_size cfg)) txt = drop (nat (chunk_size cfg)) (drop (nat start) txt)"
      using less.prems(1) assms(1) by (simp add: nat_add_distrib add.commute)
    then have d: "drop (nat start) txt = ?w @ drop (nat (start + chunk_size cfg)) txt"
      unfolding w by (simp only: append_take_drop_id)
    have "non_space (drop (nat start) txt) =
          non_space ?w @ non_space (drop (nat (start + chunk_size cfg)) txt)"
      using d by (metis non_space_append)
    then show ?thesis by (simp add: ih c)
  next
    case False
    then have "r = chunks" using less.prems(2) by (subst (asm) split_fixed_loop.simps) simp
    moreover have "drop (nat start) txt = []" using False by simp
    ultimately show ?thesis by (simp add: non_space_def)
  qed
qed

text \<open>
  When \<open>chunk_size \<le> 0\<close> and \<open>overlap \<ge> chunk_size\<close>, \<open>start\<close> does not grow, and the loop
  does not return on a text it has not passed yet.
\<close>

lemma split_fixed_loop_diverges:
  assumes "split_fixed_loop cfg txt md start index chunks = Some r"
  shows "\<not> (chunk_size cfg \<le> 0 \<and> chunk_size cfg \<le> overlap cfg \<and> start < int (length txt))"
proof (rule split_fixed_loop.raw_induct[where P = "\<lambda>cfg txt md start index chunks r.
        \<not> (chunk_size cfg \<le> 0 \<and> chunk_size cfg \<le> overlap cfg \<and> start < int (length txt))", OF _ assms],
       goal_cases)
  case (1 loop cfg t md start index chunks r)
  show ?case
  proof
    assume a: "chunk_size cfg \<le> 0 \<and> chunk_size cfg \<le> overlap cfg \<and> start < int (length t)"
    then obtain i c where "loop cfg t md (start + chunk_size cfg) i c = Some r"
      using 1(2) by (simp split: if_splits)
    from 1(1)[OF this] a show False by simp
  qed
qed

text \<open>
  C9, the claim as stated: \<open>split_fixed\<close> terminates on every text, also when
  \<open>overlap \<ge> chunk_size\<close>. It fails inside that case: nothing checks \<open>chunk_size\<close>, and
  with \<open>chunk_size = 0\<close> (the other settings at their defaults, so that
  \<open>overlap \<ge> chunk_size\<close>) the guard sets \<open>start = end = start\<close>; on the text \<open>a\<close> the
  loop takes the same empty window for ever and never returns.
\<close>

theorem split_fixed_zero_size_diverges:
  "split_fixed \<lparr>chunk_size = 0, overlap = 100, min_chunk_size = 50\<rparr> (ascii ''a'') None = None"
proof (cases "split_fixed \<lparr>chunk_size = 0, overlap = 100, min_chunk_size = 50\<rparr> (ascii ''a'') None")
  case (Some r)
  then show ?thesis
    using split_fixed_loop_diverges
            [of "\<lparr>chunk_size = 0, overlap = 100, min_chunk_size = 50\<rparr>" "ascii ''a''" None 0 0 "[]" r]
    by (simp add: split_fixed_def ascii_def)
qed simp

text \<open>
  C9, amended: for a positive \<open>chunk_size\<close> (or, more generally, whenever
  \<open>overlap < chunk_size\<close>), \<open>split_fixed\<close> terminates on every text, whatever the
  overlap, also when \<open>overlap \<ge> chunk_size\<close>. The loop advances \<open>start\<close> by
  \<open>chunk_size - overlap\<close> when \<open>overlap < chunk_size\<close> and by \<open>chunk_size\<close> otherwise, and
  one of the two steps is positive. When \<open>overlap \<ge> chunk_size\<close> the windows are
  consecutive, and the chunks hold all the non-whitespace content of the text, in order.
\<close>

theorem split_fixed_terminates_and_covers:
  assumes "0 < chunk_size cfg \<or> overlap cfg < chunk_size cfg"
  shows "\<exists>chunks. split_fixed cfg txt md = Some chunks \<and>
           (0 < chunk_size cfg \<and> chunk_size cfg \<le> overlap cfg \<longrightarrow>
              non_space (concat (map c_text chunks)) = non_space txt)"
proof -
  from split_fixed_loop_returns[OF assms] obtain r where
    r: "split_fixed_loop cfg txt md 0 0 [] = Some r" by blast
  have "non_space (concat (map c_text r)) = non_space txt"
    if "0 < chunk_size cfg" "chunk_size cfg \<le> overlap cfg"
    using split_fixed_loop_covers[OF that _ r] by (simp add: non_space_def)
  with r show ?thesis by (auto simp: split_fixed_def)
qed

theorem split_fixed_terminates_and_covers_witness:
  "(0 < chunk_size \<lparr>chunk_size = 4, overlap = 6, min_chunk_size = 50\<rparr> \<or>
    overlap \<lparr>chunk_size = 4, overlap = 6, min_chunk_size = 50\<rparr>
      < chunk_size \<lparr>chunk_size = 4, overlap = 6, min_chunk_size = 50\<rparr>) \<and>
   (\<exists>chunks. split_fixed \<lparr>chunk_size = 4, overlap = 6, min_chunk_size = 50\<rparr>
                (ascii ''ab cdefg h'') None = Some chunks \<and>
             non_space (concat (map c_text chunks)) = ascii ''abcdefgh'')"
proof -
  have n: "non_space (ascii ''ab cdefg h'') = ascii ''abcdefgh''"
    by (simp add: chunker_eval)
  from split_fixed_terminates_and_covers
         [of "\<lparr>chunk_size = 4, overlap = 6, min_chunk_size = 50\<rparr>" "ascii ''ab cdefg h''" None]
  show ?thesis unfolding n by simp
qed


subsection \<open>What is kept when nothing is dropped\<close>

lemma non_space_Nil [simp]: "non_space [] = []"
  by (simp add: non_space_def)

lemma non_space_concat: "non_space (concat xs) = concat (map non_space xs)"
  by (induction xs) (simp_all add: non_space_def)

lemma non_space_Nil_iff: "non_space s = [] \<longleftrightarrow> (\<forall>c\<in>set s. is_space c)"
  by (auto simp: non_space_def filter_empty_conv)

lemma is_space_newline: "is_space 10"
  by (simp add: is_space_def)

lemma split_blank_content: "non_space (concat (split_blank cur rest)) = non_space (cur @ rest)"
proof (induction cur rest rule: split_blank.induct)
  case (3 cur c d rest)
  show ?case
  proof (cases "c = 10 \<and> d = 10")
    case True
    then have "non_space (c # d # rest) = non_space rest"
      using is_space_newline by (simp add: non_space_def)
    with True "3.IH"(1) show ?thesis by (simp add: non_space_append)
  next
    case False
    then have "split_blank cur (c # d # rest) = split_blank (cur @ [c]) (d # rest)" by auto
    with "3.IH"(2)[OF False] show ?thesis by simp
  qed
qed simp_all

lemma re_split_content: "non_space (concat (re_split prev adv seg rest)) = non_space (seg @ rest)"
proof (induction prev adv seg rest rule: re_split.induct)
  case (1 prev adv seg rest)
  let ?C = "(case prev of None \<Rightarrow> False | Some p \<Rightarrow> is_terminal p) \<and>
            \<not> (adv \<and> takeWhile is_space rest = [])"
  show ?case
  proof (cases ?C)
    case True
    have "re_split prev adv seg rest =
          seg # re_split (if takeWhile is_space rest = [] then prev
                          else Some (last (takeWhile is_space rest)))
                  (takeWhile is_space rest = []) [] (dropWhile is_space rest)"
      by (subst re_split.simps) (rule if_P[OF True])
    then have "non_space (concat (re_split prev adv seg rest)) =
          non_space seg @ non_space ([] @ dropWhile is_space rest)"
      using "1.IH"(1)[OF True] by (simp only: concat.simps non_space_append)
    then show ?thesis by (simp add: non_space_append non_space_dropWhile)
  next
    case False
    have e: "re_split prev adv seg rest =
          (case rest of [] \<Rightarrow> [seg] | c # cs \<Rightarrow> re_split (Some c) False (seg @ [c]) cs)"
      by (subst re_split.simps) (rule if_not_P[OF False])
    show ?thesis
    proof (cases rest)
      case Nil
      then show ?thesis unfolding e by simp
    next
      case (Cons c cs)
      with "1.IH"(2)[OF False Cons] show ?thesis unfolding e by simp
    qed
  qed
qed

lemma strip_nonempty_content: "non_space (concat (strip_nonempty pieces)) = non_space (concat pieces)"
proof (induction pieces)
  case Nil
  then show ?case by (simp add: strip_nonempty_def)
next
  case (Cons p pieces)
  have "non_space p = []" if "strip p = []"
    using non_space_strip[of p] that by (simp add: non_space_def)
  with Cons show ?case
    by (auto simp: strip_nonempty_def non_space_append non_space_strip)
qed

lemma strip_nonempty_units: "u \<in> set (strip_nonempty pieces) \<Longrightarrow> u \<noteq> []"
  by (auto simp: strip_nonempty_def)

lemma join_content:
  "non_space sep = [] \<Longrightarrow> non_space (join sep us) = non_space (concat us)"
  by (induction sep us rule: join.induct) (simp_all add: non_space_append)

lemma join_nonempty: "us \<noteq> [] \<Longrightarrow> \<forall>u\<in>set us. u \<noteq> [] \<Longrightarrow> join sep us \<noteq> []"
  by (cases "(sep, us)" rule: join.cases) auto

lemma flush_content:
  assumes "min_chunk_size cfg \<le> 1" "non_space sep = []" "current \<noteq> []" "\<forall>u\<in>set current. u \<noteq> []"
  shows "non_space (concat (map c_text (fst (flush cfg md sep current ci)))) =
         non_space (concat (map c_text (fst ci))) @ non_space (concat current)"
proof -
  have "join sep current \<noteq> []" using assms(3,4) by (rule join_nonempty)
  then have "1 \<le> int (length (join sep current))" by (cases "join sep current") auto
  with assms(1) have "min_chunk_size cfg \<le> int (length (join sep current))" by linarith
  then show ?thesis
    by (simp add: flush_def Let_def mk_chunk_def non_space_append join_content[OF assms(2)])
qed

lemma accumulate_content:
  assumes "min_chunk_size cfg \<le> 1" "non_space sep = []"
    "\<forall>u\<in>set us. u \<noteq> []" "\<forall>u\<in>set current. u \<noteq> []"
  shows "non_space (concat (map c_text (fst (fst (accumulate cfg md sep us ci current n))))) @
         non_space (concat (snd (accumulate cfg md sep us ci current n))) =
         non_space (concat (map c_text (fst ci))) @ non_space (concat current) @
         non_space (concat us) \<and>
         (\<forall>u\<in>set (snd (accumulate cfg md sep us ci current n)). u \<noteq> [])"
  using assms(3,4)
proof (induction us arbitrary: ci current n)
  case Nil
  then show ?case by (simp add: non_space_Nil)
next
  case (Cons u us)
  show ?case
  proof (cases "n + int (length u) > chunk_size cfg \<and> current \<noteq> []")
    case True
    have f: "non_space (concat (map c_text (fst (flush cfg md sep current ci)))) =
         non_space (concat (map c_text (fst ci))) @ non_space (concat current)"
      using True Cons.prems(2) by (intro flush_content[OF assms(1,2)]) auto
    have "\<forall>u\<in>set us. u \<noteq> []" "\<forall>v\<in>set [u]. v \<noteq> []" using Cons.prems(1) by auto
    from Cons.IH[OF this, of "flush cfg md sep current ci" "int (length u)"] f
    have "non_space (concat (map c_text (fst (fst (accumulate cfg md sep us
                (flush cfg md sep current ci) [u] (int (length u))))))) @
          non_space (concat (snd (accumulate cfg md sep us (flush cfg md sep current ci) [u]
                (int (length u)))))
          = non_space (concat (map c_text (fst ci))) @ non_space (concat current) @
            non_space u @ non_space (concat us)"
      and "\<forall>v\<in>set (snd (accumulate cfg md sep us (flush cfg md sep current ci) [u]
                (int (length u)))). v \<noteq> []"
      by (simp_all add: non_space_append)
    moreover have "accumulate cfg md sep (u # us) ci current n
                   = accumulate cfg md sep us (flush cfg md sep current ci) [u] (int (length u))"
      using True by simp
    ultimately show ?thesis by (simp add: non_space_append)
  next
    case False
    have "\<forall>u\<in>set us. u \<noteq> []" "\<forall>v\<in>set (current @ [u]). v \<noteq> []"
      using Cons.prems by auto
    from Cons.IH[OF this, of ci "n + int (length u)"]
    have "non_space (concat (map c_text (fst (fst (accumulate cfg md sep us ci (current @ [u])
                (n + int (length u))))))) @
          non_space (concat (snd (accumulate cfg md sep us ci (current @ [u]) (n + int (length u)))))
          = non_space (concat (map c_text (fst ci))) @ non_space (concat current) @
            non_space u @ non_space (concat us)"
      and "\<forall>v\<in>set (snd (accumulate cfg md sep us ci (current @ [u]) (n + int (length u)))). v \<noteq> []"
      by (simp_all add: non_space_append)
    moreover have "accumulate cfg md sep (u # us) ci current n
                   = accumulate cfg md sep us ci (current @ [u]) (n + int (length u))"
      using False by auto
    ultimately show ?thesis by (simp add: non_space_append)
  qed
qed

lemma assemble_content:
  assumes "min_chunk_size cfg \<le> 1" "non_space sep = []" "\<forall>u\<in>set units. u \<noteq> []"
  shows "non_space (concat (map c_text (assemble cfg md sep units))) = non_space (concat units)"
proof -
  let ?r = "accumulate cfg md sep units ([], 0) [] 0"
  have a: "non_space (concat (map c_text (fst (fst ?r)))) @ non_space (concat (snd ?r)) =
           non_space (concat units)" "\<forall>u\<in>set (snd ?r). u \<noteq> []"
    using accumulate_content[OF assms(1,2,3), of "[]" md "([], 0)" 0]
    by (simp_all add: non_space_Nil)
  show ?thesis
  proof (cases "snd ?r = []")
    case True
    with a show ?thesis by (simp add: assemble_def Let_def)
  next
    case False
    from flush_content[OF assms(1,2) False a(2), of md "fst ?r"] a(1) False
    show ?thesis by (simp add: assemble_def Let_def)
  qed
qed

text \<open>
  The guard on \<open>min_chunk_size\<close> is the only place where the two strategies lose content:
  when \<open>min_chunk_size \<le> 1\<close>, so that no assembled chunk is below it, the texts of the
  chunks hold all the non-whitespace content of the input, in order.
\<close>

lemma lossless_without_minimum:
  assumes "min_chunk_size cfg \<le> 1"
  shows "non_space (concat (map c_text (split_by_paragraphs cfg txt md))) = non_space txt"
    and "non_space (concat (map c_text (split_by_sentences cfg txt md))) = non_space txt"
proof -
  have p: "non_space [10, 10] = []" and s: "non_space [32] = []"
    by (simp_all add: non_space_def is_space_def)
  have u: "\<forall>u\<in>set (strip_nonempty pieces). u \<noteq> []" for pieces
    using strip_nonempty_units by blast
  have "non_space (concat (map c_text (assemble cfg md [10, 10] (strip_nonempty (split_blank [] txt)))))
        = non_space (concat (strip_nonempty (split_blank [] txt)))"
    by (rule assemble_content[OF assms p u])
  also have "\<dots> = non_space (concat (split_blank [] txt))"
    by (rule strip_nonempty_content)
  also have "\<dots> = non_space ([] @ txt)"
    by (rule split_blank_content)
  finally show "non_space (concat (map c_text (split_by_paragraphs cfg txt md))) = non_space txt"
    by (simp only: split_by_paragraphs_def paragraphs_def append_Nil)
  have "non_space (concat (map c_text (assemble cfg md [32] (strip_nonempty (re_split None False [] txt)))))
        = non_space (concat (strip_nonempty (re_split None False [] txt)))"
    by (rule assemble_content[OF assms s u])
  also have "\<dots> = non_space (concat (re_split None False [] txt))"
    by (rule strip_nonempty_content)
  also have "\<dots> = non_space ([] @ txt)"
    by (rule re_split_content)
  finally show "non_space (concat (map c_text (split_by_sentences cfg txt md))) = non_space txt"
    by (simp only: split_by_sentences_def sentences_def append_Nil)
qed

section \<open>Properties of the tool registry\<close>




section \<open>Properties of the calculator\<close>

lemma all_allowed_iff: "all_allowed expression \<longleftrightarrow> set expression \<subseteq> set allowed_chars"
  by (auto simp: all_allowed_def list_all_iff)

text \<open>
  C10. \<open>CalculatorTool.execute\<close> returns a string for every expression and every
  behaviour of the interpreter. An expression with a character outside the allowlist
  gets the rejection message whatever \<open>eval\<close> would do with it: the result is the same for
  every evaluator. When \<open>eval\<close> raises on an accepted expression, the result is the
  message of the handler that catches the exception.
\<close>

theorem calculator_execute_never_raises:
  "(\<exists>s. CalculatorTool_execute py expression = Inr s) \<and>
   (\<not> set expression \<subseteq> set (ascii ''0123456789+-*/().% '') \<longrightarrow>
      (\<forall>ev. CalculatorTool_execute (py\<lparr>py_eval := ev\<rparr>) expression = Inr bad_chars_msg)) \<and>
   (\<forall>e. set expression \<subseteq> set (ascii ''0123456789+-*/().% '') \<and> py_eval py expression = Inl e \<longrightarrow>
      CalculatorTool_execute py expression =
        Inr (if exn_class e = ZeroDivisionError then div_zero_msg
             else if exn_class e = SyntaxError then syntax_error_prefix @ expression
             else calc_error_prefix @ exn_msg e))"
proof (intro conjI allI impI)
  show "\<exists>s. CalculatorTool_execute py expression = Inr s"
    by (auto simp: CalculatorTool_execute_def CalculatorTool_handler_def split: sum.splits)
next
  fix ev assume "\<not> set expression \<subseteq> set (ascii ''0123456789+-*/().% '')"
  then have "\<not> all_allowed expression" by (simp add: all_allowed_iff allowed_chars_def)
  then show "CalculatorTool_execute (py\<lparr>py_eval := ev\<rparr>) expression = Inr bad_chars_msg"
    by (simp add: CalculatorTool_execute_def CalculatorTool_try_def)
next
  fix e assume "set expression \<subseteq> set (ascii ''0123456789+-*/().% '') \<and> py_eval py expression = Inl e"
  then have "all_allowed expression" "py_eval py expression = Inl e"
    by (simp_all add: all_allowed_iff allowed_chars_def)
  then show "CalculatorTool_execute py expression =
        Inr (if exn_class e = ZeroDivisionError then div_zero_msg
             else if exn_class e = SyntaxError then syntax_error_prefix @ expression
             else calc_error_prefix @ exn_msg e)"
    by (simp add: CalculatorTool_execute_def CalculatorTool_try_def CalculatorTool_handler_def)
qed

theorem calculator_execute_never_raises_witness:
  "set (ascii ''1/0'') \<subseteq> set (ascii ''0123456789+-*/().% '') \<and>
   py_eval toy_interpreter (ascii ''1/0'') = Inl (Exn ZeroDivisionError (ascii ''division by zero'')) \<and>
   CalculatorTool_execute toy_interpreter (ascii ''1/0'') = Inr div_zero_msg \<and>
   set (ascii ''1+'') \<subseteq> set (ascii ''0123456789+-*/().% '') \<and>
   CalculatorTool_execute toy_interpreter (ascii ''1+'') = Inr (syntax_error_prefix @ ascii ''1+'') \<and>
   \<not> set (ascii ''2**8; x'') \<subseteq> set (ascii ''0123456789+-*/().% '') \<and>
   CalculatorTool_execute toy_interpreter (ascii ''2**8; x'') = Inr bad_chars_msg"
proof -
  have a1: "set (ascii ''1/0'') \<subseteq> set (ascii ''0123456789+-*/().% '')"
    and a2: "set (ascii ''1+'') \<subseteq> set (ascii ''0123456789+-*/().% '')"
    and a3: "\<not> set (ascii ''2**8; x'') \<subseteq> set (ascii ''0123456789+-*/().% '')"
    by (simp_all add: ascii_def)
  have e1: "py_eval toy_interpreter (ascii ''1/0'')
            = Inl (Exn ZeroDivisionError (ascii ''division by zero''))"
    and e2: "py_eval toy_interpreter (ascii ''1+'') = Inl (Exn SyntaxError (ascii ''invalid syntax''))"
    by (simp_all add: toy_interpreter_def ascii_def)
  have u: "toy_interpreter\<lparr>py_eval := py_eval toy_interpreter\<rparr> = toy_interpreter" by simp
  from calculator_execute_never_raises [of toy_interpreter "ascii ''1/0''"] a1 e1
  have r1: "CalculatorTool_execute toy_interpreter (ascii ''1/0'') = Inr div_zero_msg"
    by simp
  from calculator_execute_never_raises [of toy_interpreter "ascii ''1+''"] a2 e2
  have r2: "CalculatorTool_execute toy_interpreter (ascii ''1+'')
            = Inr (syntax_error_prefix @ ascii ''1+'')"
    by simp
  from calculator_execute_never_raises [of toy_interpreter "ascii ''2**8; x''"] a3
  have "CalculatorTool_execute (toy_interpreter\<lparr>py_eval := py_eval toy_interpreter\<rparr>)
          (ascii ''2**8; x'') = Inr bad_chars_msg"
    by blast
  then have r3: "CalculatorTool_execute toy_interpreter (ascii ''2**8; x'') = Inr bad_chars_msg"
    unfolding u .
  from a1 a2 a3 e1 r1 r2 r3 show ?thesis by simp
qed

section \<open>Properties of the vector store\<close>

lemma collect_results_length:
  "length (collect_results min_score docs metas dists doc_ids) \<le> length dists"
  by (induction min_score docs metas dists doc_ids rule: collect_results.induct)
     (auto simp: Let_def)

lemma collect_results_score:
  "r \<in> set (collect_results min_score docs metas dists doc_ids) \<Longrightarrow>
   min_score \<le> sr_score r \<and> (\<exists>d\<in>set dists. sr_score r = 1 - d)"
  by (induction min_score docs metas dists doc_ids rule: collect_results.induct)
     (auto simp: Let_def split: if_splits)

lemma collect_results_sorted:
  "sorted dists \<Longrightarrow>
   sorted_wrt (\<lambda>a b. sr_score b \<le> sr_score a) (collect_results min_score docs metas dists doc_ids)"
proof (induction min_score docs metas dists doc_ids rule: collect_results.induct)
  case (1 min_score doc docs meta metas distance dists doc_id doc_ids)
  have "sr_score r \<le> 1 - distance"
    if "r \<in> set (collect_results min_score docs metas dists doc_ids)" for r
  proof -
    from collect_results_score[OF that] obtain d where "d \<in> set dists" "sr_score r = 1 - d"
      by blast
    with "1.prems" show ?thesis by auto
  qed
  with 1 show ?case by (auto simp: Let_def)
qed simp_all

text \<open>
  C7. When the vector database keeps its contract, a search that returns has at most
  \<open>top_k\<close> results, each with a score of at least \<open>min_score\<close>, each score being one minus a
  distance of the answer, in non-increasing order of score. The order and the bound on
  the length are the database's; \<open>search\<close> keeps them because it only drops results
  below \<open>min_score\<close> and \<open>1 - d\<close> reverses the order of the distances.
\<close>

theorem search_bounded_thresholded_sorted:
  assumes "query q top_k where_filter = Inr results"
    and "query_contract top_k results"
    and "VectorStore_search query q top_k where_filter min_score = Inr found"
  shows "int (length found) \<le> top_k \<and>
         (\<forall>r\<in>set found. min_score \<le> sr_score r) \<and>
         (\<forall>r\<in>set found. \<exists>row rest d. distances results = Some (row # rest) \<and> d \<in> set row \<and>
                                     sr_score r = 1 - d) \<and>
         sorted_wrt (\<lambda>a b. sr_score b \<le> sr_score a) found"
proof (cases "\<exists>doc_row rest. documents results = Some (doc_row # rest) \<and> doc_row \<noteq> []")
  case False
  then have "found = []"
    using assms(1,3)
    by (auto simp: VectorStore_search_def split: option.splits list.splits if_splits)
  then show ?thesis using assms(2) by (simp add: query_contract_def)
next
  case True
  then obtain doc_row rest where d: "documents results = Some (doc_row # rest)" "doc_row \<noteq> []"
    by blast
  from assms(1,3) d obtain meta_row dist_row id_row where
    rows: "first_row (metadatas results) = Inr meta_row"
          "first_row (distances results) = Inr dist_row"
          "first_row (ids results) = Inr id_row"
    and f: "found = collect_results min_score doc_row meta_row dist_row id_row"
    by (auto simp: VectorStore_search_def split: sum.splits)
  from rows(2) obtain drest where dr: "distances results = Some (dist_row # drest)"
    by (auto simp: first_row_def split: option.splits list.splits)
  with assms(2) have c: "int (length dist_row) \<le> top_k" "sorted dist_row"
    by (simp_all add: query_contract_def)
  have "int (length found) \<le> top_k"
    using collect_results_length[of min_score doc_row meta_row dist_row id_row] c(1) f by simp
  moreover have "\<forall>r\<in>set found. min_score \<le> sr_score r"
    using collect_results_score f by blast
  moreover have "\<forall>r\<in>set found. \<exists>row rest d. distances results = Some (row # rest) \<and> d \<in> set row \<and>
                                     sr_score r = 1 - d"
    using collect_results_score f dr by blast
  moreover have "sorted_wrt (\<lambda>a b. sr_score b \<le> sr_score a) found"
    unfolding f by (rule collect_results_sorted[OF c(2)])
  ultimately show ?thesis by blast
qed

theorem search_bounded_thresholded_sorted_witness:
  "query_contract 3 \<lparr>documents = Some [ [ascii ''revenue 2023'', ascii ''revenue 2022'', ascii ''weather''] ],
          metadatas = Some [ [ [], [], [] ] ],
          distances = Some [ [1 / 10, 2 / 5, 7 / 10] ],
          ids = Some [ [ascii ''doc_0'', ascii ''doc_1'', ascii ''doc_2''] ]\<rparr> \<and>
   VectorStore_search toy_query (ascii ''revenue'') 3 None (1 / 2) =
     Inr [\<lparr>sr_text = ascii ''revenue 2023'', sr_metadata = [], sr_score = 9 / 10, sr_id = ascii ''doc_0''\<rparr>,
          \<lparr>sr_text = ascii ''revenue 2022'', sr_metadata = [], sr_score = 3 / 5, sr_id = ascii ''doc_1''\<rparr>] \<and>
   int (length [\<lparr>sr_text = ascii ''revenue 2023'', sr_metadata = [], sr_score = 9 / 10, sr_id = ascii ''doc_0''\<rparr>,
          \<lparr>sr_text = ascii ''revenue 2022'', sr_metadata = [], sr_score = 3 / 5, sr_id = ascii ''doc_1''\<rparr>]) \<le> 3 \<and>
   sorted_wrt (\<lambda>a b. sr_score b \<le> sr_score a)
     [\<lparr>sr_text = ascii ''revenue 2023'', sr_metadata = [], sr_score = 9 / 10, sr_id = ascii ''doc_0''\<rparr>,
      \<lparr>sr_text = ascii ''revenue 2022'', sr_metadata = [], sr_score = 3 / 5, sr_id = ascii ''doc_1''\<rparr>]"
proof -
  let ?res = "\<lparr>documents = Some [ [ascii ''revenue 2023'', ascii ''revenue 2022'', ascii ''weather''] ],
          metadatas = Some [ [ [], [], [] ] ],
          distances = Some [ [1 / 10, 2 / 5, 7 / 10 :: real] ],
          ids = Some [ [ascii ''doc_0'', ascii ''doc_1'', ascii ''doc_2''] ]\<rparr>"
  let ?found = "[\<lparr>sr_text = ascii ''revenue 2023'', sr_metadata = [], sr_score = 9 / 10, sr_id = ascii ''doc_0''\<rparr>,
          \<lparr>sr_text = ascii ''revenue 2022'', sr_metadata = [], sr_score = 3 / 5, sr_id = ascii ''doc_1''\<rparr>]"
  have q: "toy_query (ascii ''revenue'') 3 None = Inr ?res" by (simp add: toy_query_def)
  have c: "query_contract 3 ?res" by (simp add: query_contract_def)
  have s: "VectorStore_search toy_query (ascii ''revenue'') 3 None (1 / 2) = Inr ?found"
    by (simp add: VectorStore_search_def toy_query_def first_row_def Let_def)
  from search_bounded_thresholded_sorted[OF q c s] c s show ?thesis by blast
qed

subsection \<open>Generated ids\<close>

text \<open>The definitions that evaluate the store on concrete records.\<close>

lemmas store_eval =
  VectorStore_add_documents_def VectorStore_delete_def collection_add_def collection_delete_def
  collection_count_def stored_ids_def auto_ids_def str_int_def str_nat.simps ascii_def Let_def

text \<open>
  C8. The claim: ids generated by \<open>add_documents\<close> never collide with ids already in the
  collection, for every sequence of \<open>add_documents\<close> and \<open>delete\<close>. On the code: two
  documents, each with a metadata dict, are added to an empty collection and get \<open>doc_0\<close>
  and \<open>doc_1\<close>; \<open>doc_0\<close> is deleted; the count is now 1, so the id generated for the next
  document is \<open>doc_1\<close>, which is still stored. A database that skips stored ids returns
  \<open>doc_1\<close> and leaves the new text out; one that rejects them makes the call raise.
\<close>

theorem auto_id_collides_after_delete:
  "VectorStore_add_documents \<lparr>records = [], conflict = Skip\<rparr> [ascii ''a'', ascii ''b'']
      (Some [ [(ascii ''page'', PyInt 1)], [(ascii ''page'', PyInt 2)] ]) None
     = Inr ([ascii ''doc_0'', ascii ''doc_1''],
            \<lparr>records = [\<lparr>s_id = ascii ''doc_0'', s_document = ascii ''a'',
                           s_metadata = [(ascii ''page'', PyInt 1)]\<rparr>,
                        \<lparr>s_id = ascii ''doc_1'', s_document = ascii ''b'',
                           s_metadata = [(ascii ''page'', PyInt 2)]\<rparr>],
             conflict = Skip\<rparr>) \<and>
   VectorStore_delete
      \<lparr>records = [\<lparr>s_id = ascii ''doc_0'', s_document = ascii ''a'',
                     s_metadata = [(ascii ''page'', PyInt 1)]\<rparr>,
                  \<lparr>s_id = ascii ''doc_1'', s_document = ascii ''b'',
                     s_metadata = [(ascii ''page'', PyInt 2)]\<rparr>],
       conflict = Skip\<rparr> [ascii ''doc_0'']
     = \<lparr>records = [\<lparr>s_id = ascii ''doc_1'', s_document = ascii ''b'',
                      s_metadata = [(ascii ''page'', PyInt 2)]\<rparr>],
        conflict = Skip\<rparr> \<and>
   stored_ids
      \<lparr>records = [\<lparr>s_id = ascii ''doc_1'', s_document = ascii ''b'',
                     s_metadata = [(ascii ''page'', PyInt 2)]\<rparr>],
       conflict = Skip\<rparr> = [ascii ''doc_1''] \<and>
   auto_ids (collection_count
      \<lparr>records = [\<lparr>s_id = ascii ''doc_1'', s_document = ascii ''b'',
                     s_metadata = [(ascii ''page'', PyInt 2)]\<rparr>],
       conflict = Skip\<rparr>) 1 = [ascii ''doc_1''] \<and>
   VectorStore_add_documents
      \<lparr>records = [\<lparr>s_id = ascii ''doc_1'', s_document = ascii ''b'',
                     s_metadata = [(ascii ''page'', PyInt 2)]\<rparr>],
       conflict = Skip\<rparr> [ascii ''c''] (Some [ [(ascii ''page'', PyInt 3)] ]) None
     = Inr ([ascii ''doc_1''],
            \<lparr>records = [\<lparr>s_id = ascii ''doc_1'', s_document = ascii ''b'',
                           s_metadata = [(ascii ''page'', PyInt 2)]\<rparr>],
             conflict = Skip\<rparr>) \<and>
   VectorStore_add_documents
      \<lparr>records = [\<lparr>s_id = ascii ''doc_1'', s_document = ascii ''b'',
                     s_metadata = [(ascii ''page'', PyInt 2)]\<rparr>],
       conflict = Reject\<rparr> [ascii ''c''] (Some [ [(ascii ''page'', PyInt 3)] ]) None
     = Inl (Exn DuplicateIDError (ascii ''ID already exists''))"
  by (simp add: store_eval)

text \<open>
  Without \<open>metadatas\<close>, \<open>add_documents\<close> passes one empty dict per text, which the
  database does not accept: the call raises and nothing is stored.
\<close>

lemma add_documents_without_metadatas_raises:
  "VectorStore_add_documents \<lparr>records = [], conflict = Skip\<rparr> [ascii ''a'', ascii ''b''] None None
     = Inl (Exn ValueError (ascii ''Expected metadata to be a non-empty dict''))"
  by (simp add: store_eval)

section \<open>Properties of the orchestrator\<close>

subsection \<open>One iteration\<close>

lemma react_loop_Suc_cases:
  assumes "react_loop loads agent (Suc n) st = (out, st')"
  obtains
    (provider) e where
      "client agent (loop_request agent (messages st)) = Inl e" "out = Raised e"
      "st' = st\<lparr>requests := requests st @ [loop_request agent (messages st)]\<rparr>"
  | (answer) am where
      "client agent (loop_request agent (messages st)) = Inr am"
      "tool_calls am = None \<or> tool_calls am = Some []" "out = Answered (content am)"
      "st' = st\<lparr>requests := requests st @ [loop_request agent (messages st)]\<rparr>"
  | (failed) am tc tcs e where
      "client agent (loop_request agent (messages st)) = Inr am"
      "tool_calls am = Some (tc # tcs)"
      "dispatch loads (registry agent) (tc # tcs) (messages st @ [Assistant am]) = Inl e"
      "out = Raised e"
      "st' = st\<lparr>requests := requests st @ [loop_request agent (messages st)],
                 messages := messages st @ [Assistant am]\<rparr>"
  | (continue) am tc tcs msgs where
      "client agent (loop_request agent (messages st)) = Inr am"
      "tool_calls am = Some (tc # tcs)"
      "dispatch loads (registry agent) (tc # tcs) (messages st @ [Assistant am]) = Inr msgs"
      "react_loop loads agent n
         (st\<lparr>requests := requests st @ [loop_request agent (messages st)], messages := msgs\<rparr>)
       = (out, st')"
proof (cases "client agent (loop_request agent (messages st))")
  case (Inl e)
  with assms show ?thesis by (intro provider[of e]) (auto simp: Let_def)
next
  case (Inr am)
  show ?thesis
  proof (cases "tool_calls am = None \<or> tool_calls am = Some []")
    case True
    with assms Inr show ?thesis by (intro answer[of am]) (auto simp: Let_def)
  next
    case False
    then obtain tc tcs where t: "tool_calls am = Some (tc # tcs)"
      by (cases "tool_calls am") (auto simp: neq_Nil_conv)
    show ?thesis
    proof (cases "dispatch loads (registry agent) (tc # tcs) (messages st @ [Assistant am])")
      case (Inl e)
      with assms Inr t show ?thesis by (intro failed[of am tc tcs e]) (auto simp: Let_def)
    next
      case r: (Inr msgs)
      with assms Inr t show ?thesis by (intro continue[of am tc tcs msgs]) (auto simp: Let_def)
    qed
  qed
qed



subsection \<open>The requests of a run\<close>

lemma react_loop_requests:
  "react_loop loads agent n st = (out, st') \<Longrightarrow>
   \<exists>new. requests st' = requests st @ new \<and> length new \<le> n \<and>
         (out = Exhausted \<longrightarrow> length new = n)"
proof (induction n arbitrary: st)
  case 0
  then show ?case by simp
next
  case (Suc n)
  from Suc.prems show ?case
  proof (cases rule: react_loop_Suc_cases)
    case (continue am tc tcs msgs)
    from Suc.IH[OF continue(4)] obtain new where
      "requests st' = (requests st @ [loop_request agent (messages st)]) @ new"
      "length new \<le> n" "out = Exhausted \<longrightarrow> length new = n" by auto
    then show ?thesis by (intro exI[of _ "loop_request agent (messages st) # new"]) simp
  qed auto
qed



text \<open>The definitions that evaluate a run of one of the concrete agents.\<close>

lemmas agent_eval =
  AgentOrchestrator_run_def initial_state_def loop_request_def forced_request_def
  ToolRegistry_get_openai_tools_def to_openai_tool_def ToolRegistry_register_def
  ToolRegistry_execute_def ToolRegistry_get_def raising_tool_def toy_loads_def
  unpack_kwargs_def insisting_agent_def silent_agent_def truncated_call_agent_def
  Let_def eval_nat_numeral

subsection \<open>The iteration budget\<close>

text \<open>
  C6. With \<open>max_iterations = N\<close> the loop sends at most \<open>N\<close> requests (none when
  \<open>N\<close> is not positive). When it runs out of iterations it has sent exactly \<open>N\<close>, and the
  run sends exactly one more, the forced summary request, which carries no tools; when
  the loop ends with an answer or an exception, the run sends nothing more.
\<close>

theorem iteration_budget:
  assumes "react_loop loads agent (nat (max_iterations agent)) (initial_state agent q) = (out, st)"
  shows "length (requests st) \<le> nat (max_iterations agent) \<and>
         (out = Exhausted \<longrightarrow>
            length (requests st) = nat (max_iterations agent) \<and>
            requests (snd (AgentOrchestrator_run loads agent q))
              = requests st @ [forced_request agent (messages st)] \<and>
            req_tools (forced_request agent (messages st)) = None) \<and>
         (out \<noteq> Exhausted \<longrightarrow>
            requests (snd (AgentOrchestrator_run loads agent q)) = requests st)"
proof -
  from react_loop_requests[OF assms] obtain new where
    n: "requests st = requests (initial_state agent q) @ new"
       "length new \<le> nat (max_iterations agent)"
       "out = Exhausted \<longrightarrow> length new = nat (max_iterations agent)" by blast
  have l: "length (requests st) = length new" using n(1) by (simp add: initial_state_def)
  have e: "requests (snd (AgentOrchestrator_run loads agent q))
             = requests st @ [forced_request agent (messages st)]" if "out = Exhausted"
    using that assms
    by (cases "client agent (forced_request agent (messages st))")
       (simp_all add: AgentOrchestrator_run_def Let_def)
  have o: "requests (snd (AgentOrchestrator_run loads agent q)) = requests st"
    if "out \<noteq> Exhausted"
    using that assms by (cases out) (simp_all add: AgentOrchestrator_run_def)
  have "req_tools (forced_request agent (messages st)) = None"
    by (simp add: forced_request_def)
  with n l e o show ?thesis by auto
qed

lemma insisting_agent_loop:
  "fst (react_loop toy_loads insisting_agent (nat (max_iterations insisting_agent))
          (initial_state insisting_agent (ascii ''q''))) = Exhausted"
  by (simp add: agent_eval)

theorem iteration_budget_witness:
  "fst (react_loop toy_loads insisting_agent (nat (max_iterations insisting_agent))
          (initial_state insisting_agent (ascii ''q''))) = Exhausted \<and>
   max_iterations insisting_agent = 2 \<and>
   length (requests (snd (AgentOrchestrator_run toy_loads insisting_agent (ascii ''q'')))) = 3 \<and>
   req_tools (last (requests (snd (AgentOrchestrator_run toy_loads insisting_agent (ascii ''q''))))) = None"
proof -
  obtain out st where
    r: "react_loop toy_loads insisting_agent (nat (max_iterations insisting_agent))
          (initial_state insisting_agent (ascii ''q'')) = (out, st)"
    by (cases "react_loop toy_loads insisting_agent (nat (max_iterations insisting_agent))
          (initial_state insisting_agent (ascii ''q''))")
  have x: "out = Exhausted" using insisting_agent_loop r by simp
  have m: "max_iterations insisting_agent = 2" by (simp add: insisting_agent_def)
  from iteration_budget[OF r] x m
  have "length (requests st) = 2"
    "requests (snd (AgentOrchestrator_run toy_loads insisting_agent (ascii ''q'')))
       = requests st @ [forced_request insisting_agent (messages st)]"
    "req_tools (forced_request insisting_agent (messages st)) = None"
    by simp_all
  with r x m show ?thesis by simp
qed

subsection \<open>Malformed tool arguments\<close>




subsection \<open>What a run returns\<close>




end
